theory Spec2Isabelle
  imports Complex_Main
begin

section \<open>Leg kinematics of the hexapod: \<^verbatim>\<open>locomotion/lib/ik_solver.cpp\<close>\<close>

text \<open>
  The solver works on C++ \<^verbatim>\<open>double\<close>s.  Here a finite double is a \<^typ>\<open>real\<close> and the
  arithmetic on finite values is exact: rounding, overflow and the sign of zero are left
  out.  What is kept is every place where the source can leave the finite values: a
  division whose divisor may be zero, and a square root whose argument may be negative.
  Their results are values of \<open>dval\<close>.

  Whether the workspace boundary falls strictly with the height depends on the rounding
  of the doubles.  For that question \<open>max_reach_at_height\<close> has a second embedding,
  \<open>max_reach_at_height_b64\<close>, in which every operation is rounded to binary64 by \<open>b64\<close>.
\<close>

subsection \<open>Data\<close>

record Position3D =
  x :: real
  y :: real
  z :: real

record JointAngles =
  coxa :: real
  femur :: real
  tibia :: real

record LegDimensions =
  coxa_length :: real
  femur_length :: real
  tibia_length :: real

text \<open>
  \<^verbatim>\<open>solve_ik\<close> throws \<^verbatim>\<open>std::runtime_error\<close> at two places, told apart by the message:
  "Target position is too far (unreachable)" and "Target position is too close
  (unreachable)".
\<close>

datatype UnreachableError = TooFar | TooClose

text \<open>The result of a double operation that may leave the finite values.\<close>

datatype dval = NaN | PInf | MInf | Fin real

subsection \<open>Primitive operations\<close>

definition c_sqrt :: "real \<Rightarrow> dval" where
  \<comment> \<open>\<^verbatim>\<open>sqrt\<close> of \<^verbatim>\<open><cmath>\<close>: a negative argument gives NaN.\<close>
  "c_sqrt v = (if v < 0 then NaN else Fin (sqrt v))"

definition c_div :: "real \<Rightarrow> real \<Rightarrow> dval" where
  \<comment> \<open>IEEE division of finite values; a zero divisor is taken as \<open>+0\<close>.\<close>
  "c_div n d =
     (if d = 0 then (if 0 < n then PInf else if n < 0 then MInf else NaN)
      else Fin (n / d))"

definition c_add :: "dval \<Rightarrow> real \<Rightarrow> dval" where
  \<comment> \<open>Adding a finite value: NaN and the infinities stay what they are.\<close>
  "c_add v r = (case v of Fin a \<Rightarrow> Fin (a + r) | NaN \<Rightarrow> NaN | PInf \<Rightarrow> PInf | MInf \<Rightarrow> MInf)"

definition clamp_unit :: "dval \<Rightarrow> real" where
  \<comment> \<open>\<^verbatim>\<open>std::max(-1.0, std::min(1.0, v))\<close>.  \<^verbatim>\<open>std::min(a, b)\<close> is \<^verbatim>\<open>(b < a) ? b : a\<close> and
      \<^verbatim>\<open>std::max(a, b)\<close> is \<^verbatim>\<open>(a < b) ? b : a\<close>; every comparison with NaN is false, so
      \<^verbatim>\<open>std::min(1.0, NaN)\<close> is \<^verbatim>\<open>1.0\<close>.\<close>
  "clamp_unit v =
     (case v of Fin r \<Rightarrow> max (- 1) (min 1 r) | NaN \<Rightarrow> 1 | PInf \<Rightarrow> 1 | MInf \<Rightarrow> - 1)"

definition atan2 :: "real \<Rightarrow> real \<Rightarrow> real" where
  \<comment> \<open>\<^verbatim>\<open>atan2(b, a)\<close> of \<^verbatim>\<open><cmath>\<close> on finite values, in \<open>(-\<pi>, \<pi>]\<close>; \<^verbatim>\<open>atan2(0, 0)\<close> is \<open>0\<close>.\<close>
  "atan2 b a =
     (if 0 < a then arctan (b / a)
      else if a < 0 then (if 0 \<le> b then arctan (b / a) + pi else arctan (b / a) - pi)
      else if 0 < b then pi / 2
      else if b < 0 then - (pi / 2)
      else 0)"

definition deg_to_rad :: "real \<Rightarrow> real" where
  "deg_to_rad degrees = degrees * pi / 180"

definition rad_to_deg :: "real \<Rightarrow> real" where
  "rad_to_deg radians = radians * 180 / pi"

definition clamp_angle :: "real \<Rightarrow> real" where
  \<comment> \<open>Called with the default bounds \<^verbatim>\<open>min_deg = 0.0\<close>, \<^verbatim>\<open>max_deg = 180.0\<close> only.\<close>
  "clamp_angle angle_deg = max 0 (min 180 angle_deg)"

subsection \<open>Inverse kinematics\<close>

definition horizontal_reach :: "Position3D \<Rightarrow> LegDimensions \<Rightarrow> real" where
  \<comment> \<open>Lines 70 to 79: \<^verbatim>\<open>xy_distance - coxa_length\<close>.  The root's argument is a sum of two
      squares, never negative.\<close>
  "horizontal_reach target dimensions =
     (let xy_distance = sqrt (x target * x target + y target * y target);
          femur_base_distance = xy_distance - coxa_length dimensions
      in femur_base_distance)"

definition reach_distance :: "Position3D \<Rightarrow> LegDimensions \<Rightarrow> real" where
  \<comment> \<open>Lines 80 to 82.\<close>
  "reach_distance target dimensions =
     (let vertical_reach = z target
      in sqrt (horizontal_reach target dimensions * horizontal_reach target dimensions +
               vertical_reach * vertical_reach))"

definition ik_angles :: "Position3D \<Rightarrow> LegDimensions \<Rightarrow> JointAngles" where
  \<comment> \<open>Lines 67 and 96 to 128: the value of \<^verbatim>\<open>angles\<close> in degrees before the servo
      offsets and the clamp of lines 131 to 133.\<close>
  "ik_angles target dimensions =
     (let coxa_angle_rad = atan2 (y target) (x target);
          vertical_reach = z target;
          cos_tibia = c_div (femur_length dimensions * femur_length dimensions +
                             tibia_length dimensions * tibia_length dimensions -
                             reach_distance target dimensions * reach_distance target dimensions)
                            (2 * femur_length dimensions * tibia_length dimensions);
          tibia_angle_rad = arccos (clamp_unit cos_tibia);
          reach_angle = atan2 vertical_reach (horizontal_reach target dimensions);
          cos_femur_offset = c_div (femur_length dimensions * femur_length dimensions +
                                    reach_distance target dimensions * reach_distance target dimensions -
                                    tibia_length dimensions * tibia_length dimensions)
                                   (2 * femur_length dimensions * reach_distance target dimensions);
          femur_offset_angle = arccos (clamp_unit cos_femur_offset);
          femur_angle_rad = reach_angle + femur_offset_angle
      in \<lparr> coxa = rad_to_deg coxa_angle_rad,
           femur = rad_to_deg femur_angle_rad,
           tibia = 180 - rad_to_deg tibia_angle_rad \<rparr>)"

definition solve_ik :: "Position3D \<Rightarrow> LegDimensions \<Rightarrow> UnreachableError + JointAngles" where
  "solve_ik target dimensions =
     (let max_reach = femur_length dimensions + tibia_length dimensions;
          min_reach = \<bar>femur_length dimensions - tibia_length dimensions\<bar>
      in if reach_distance target dimensions > max_reach then Inl TooFar
         else if reach_distance target dimensions < min_reach then Inl TooClose
         else
           (let angles = ik_angles target dimensions
            in Inr \<lparr> coxa = clamp_angle (coxa angles + 90),
                     femur = clamp_angle (femur angles + 90),
                     tibia = clamp_angle (tibia angles) \<rparr>))"

subsection \<open>Forward kinematics\<close>

definition solve_fk :: "JointAngles \<Rightarrow> LegDimensions \<Rightarrow> Position3D" where
  "solve_fk angles dimensions =
     (let coxa_rad = deg_to_rad (coxa angles - 90);
          femur_rad = deg_to_rad (femur angles - 90);
          tibia_interior_rad = deg_to_rad (180 - tibia angles);
          coxa_x = coxa_length dimensions * cos coxa_rad;
          coxa_y = coxa_length dimensions * sin coxa_rad;
          femur_horizontal = femur_length dimensions * cos femur_rad;
          femur_vertical = femur_length dimensions * sin femur_rad;
          tibia_abs_angle = femur_rad + tibia_interior_rad - pi;
          tibia_horizontal = tibia_length dimensions * cos tibia_abs_angle;
          tibia_vertical = tibia_length dimensions * sin tibia_abs_angle;
          total_horizontal = femur_horizontal + tibia_horizontal
      in \<lparr> x = coxa_x + total_horizontal * cos coxa_rad,
           y = coxa_y + total_horizontal * sin coxa_rad,
           z = femur_vertical + tibia_vertical \<rparr>)"

subsection \<open>Reachability and workspace\<close>

definition is_reachable :: "Position3D \<Rightarrow> LegDimensions \<Rightarrow> bool" where
  \<comment> \<open>\<^verbatim>\<open>try { solve_ik(...); return true; } catch (const std::runtime_error&) { return false; }\<close>\<close>
  "is_reachable target dimensions =
     (case solve_ik target dimensions of Inr _ \<Rightarrow> True | Inl _ \<Rightarrow> False)"

definition max_reach_at_height :: "real \<Rightarrow> LegDimensions \<Rightarrow> dval" where
  "max_reach_at_height z_height dimensions =
     (let max_leg_length = femur_length dimensions + tibia_length dimensions;
          horizontal_reach = c_sqrt (max_leg_length * max_leg_length - z_height * z_height)
      in c_add horizontal_reach (coxa_length dimensions))"

subsection \<open>Binary64 rounding\<close>

text \<open>
  A binary64 value has a significand of 53 bits.  \<open>b64\<close> rounds a real to the nearest such
  value, ties to the even significand, as IEEE 754 prescribes for \<^verbatim>\<open>+\<close>, \<^verbatim>\<open>-\<close>, \<^verbatim>\<open>*\<close> and
  \<^verbatim>\<open>sqrt\<close>.  The exponent is not bounded: overflow to infinity and the subnormal range are
  left out.  A real \<open>v\<close> is a double when \<open>b64 v = v\<close>.
\<close>

definition rne :: "real \<Rightarrow> int" where
  \<comment> \<open>The nearest integer; halfway between two integers, the even one.\<close>
  "rne v =
     (let n = \<lfloor>v\<rfloor>; r = v - of_int n
      in if r < 1 / 2 then n else if 1 / 2 < r then n + 1 else if even n then n else n + 1)"

definition b64 :: "real \<Rightarrow> real" where
  \<comment> \<open>For \<open>2 powi e \<le> \<bar>v\<bar> < 2 powi (e + 1)\<close> the doubles are the multiples of
      \<open>2 powi (e - 52)\<close>.\<close>
  "b64 v =
     (if v = 0 then 0
      else (let e = \<lfloor>log 2 \<bar>v\<bar>\<rfloor>; u = 2 powi (e - 52)
            in of_int (rne (v / u)) * u))"

definition sqrt_b64 :: "real \<Rightarrow> dval" where
  \<comment> \<open>\<^verbatim>\<open>sqrt\<close> is correctly rounded; a negative argument gives NaN.\<close>
  "sqrt_b64 v = (if v < 0 then NaN else Fin (b64 (sqrt v)))"

definition add_b64 :: "dval \<Rightarrow> real \<Rightarrow> dval" where
  "add_b64 v r = (case v of Fin a \<Rightarrow> Fin (b64 (a + r)) | NaN \<Rightarrow> NaN | PInf \<Rightarrow> PInf | MInf \<Rightarrow> MInf)"

definition max_reach_at_height_b64 :: "real \<Rightarrow> LegDimensions \<Rightarrow> dval" where
  \<comment> \<open>Lines 200 to 208 with each sum, difference, product and root rounded on its own.\<close>
  "max_reach_at_height_b64 z_height dimensions =
     (let max_leg_length = b64 (femur_length dimensions + tibia_length dimensions);
          horizontal_reach = sqrt_b64 (b64 (b64 (max_leg_length * max_leg_length) -
                                            b64 (z_height * z_height)))
      in add_b64 horizontal_reach (coxa_length dimensions))"

subsection \<open>Inputs of the documented scenarios\<close>

definition scenario_dims :: LegDimensions where
  "scenario_dims = \<lparr> coxa_length = 20, femur_length = 60, tibia_length = 80 \<rparr>"

definition scenario_target :: Position3D where
  "scenario_target = \<lparr> x = 100, y = 0, z = 0 \<rparr>"

definition boundary_dims :: LegDimensions where
  "boundary_dims = \<lparr> coxa_length = 30, femur_length = 50, tibia_length = 50 \<rparr>"

definition origin :: Position3D where
  "origin = \<lparr> x = 0, y = 0, z = 0 \<rparr>"

section \<open>Properties\<close>

subsection \<open>Helper facts\<close>

lemma clamp_angle_range: "0 \<le> clamp_angle a \<and> clamp_angle a \<le> 180"
  by (simp add: clamp_angle_def)

lemma sqrt_eqI: "0 \<le> r \<Longrightarrow> r * r = v \<Longrightarrow> sqrt v = r"
  by (rule real_sqrt_unique) (simp_all add: power2_eq_square)

lemma rad_to_deg_arccos_range:
  "- 1 \<le> v \<Longrightarrow> v \<le> 1 \<Longrightarrow> 0 \<le> rad_to_deg (arccos v) \<and> rad_to_deg (arccos v) \<le> 180"
  using arccos_lbound [of v] arccos_ubound [of v] pi_gt_zero
  by (simp add: rad_to_deg_def field_simps)

lemma rad_to_deg_arccos_le_90: "0 \<le> v \<Longrightarrow> v \<le> 1 \<Longrightarrow> rad_to_deg (arccos v) \<le> 90"
  using arccos_le_pi2 [of v] pi_gt_zero
  by (simp add: rad_to_deg_def field_simps)

lemma scaled_sin_bound: "\<bar>l * sin u\<bar> \<le> \<bar>l::real\<bar>"
proof -
  have "\<bar>l\<bar> * \<bar>sin u\<bar> \<le> \<bar>l\<bar> * 1" by (intro mult_left_mono) auto
  then show ?thesis by (simp add: abs_mult)
qed

lemma scaled_cos_bound: "\<bar>l * cos u\<bar> \<le> \<bar>l::real\<bar>"
proof -
  have "\<bar>l\<bar> * \<bar>cos u\<bar> \<le> \<bar>l\<bar> * 1" by (intro mult_left_mono) auto
  then show ?thesis by (simp add: abs_mult)
qed

lemma fk_vertical_bound: "\<bar>f * sin u + t * sin v\<bar> \<le> \<bar>f::real\<bar> + \<bar>t\<bar>"
  using scaled_sin_bound [of f u] scaled_sin_bound [of t v] by linarith

lemma abs_less_imp_square_less: "\<bar>a\<bar> < \<bar>b\<bar> \<Longrightarrow> a\<^sup>2 < (b::real)\<^sup>2"
  using abs_le_square_iff [of b a] by linarith

lemma fk_horizontal_bound: "\<bar>c + (f * cos u + t * cos v)\<bar> \<le> \<bar>c::real\<bar> + \<bar>f\<bar> + \<bar>t\<bar>"
  using scaled_cos_bound [of f u] scaled_cos_bound [of t v] by linarith

subsection \<open>The scenario \<open>dims = (20, 60, 80)\<close>, \<open>target = (100, 0, 0)\<close>\<close>

lemma scenario_horizontal_reach: "horizontal_reach scenario_target scenario_dims = 80"
  by (simp add: horizontal_reach_def scenario_target_def scenario_dims_def sqrt_eqI [of 100])

lemma scenario_reach_distance: "reach_distance scenario_target scenario_dims = 80"
  by (simp add: reach_distance_def scenario_horizontal_reach sqrt_eqI [of 80])
     (simp add: scenario_target_def)

lemma scenario_ik_angles:
  "ik_angles scenario_target scenario_dims =
     \<lparr> coxa = 0, femur = rad_to_deg (arccos (3 / 8)), tibia = 180 - rad_to_deg (arccos (3 / 8)) \<rparr>"
  by (simp add: ik_angles_def scenario_horizontal_reach scenario_reach_distance Let_def)
     (simp add: scenario_target_def scenario_dims_def atan2_def c_div_def clamp_unit_def
        rad_to_deg_def)

lemma scenario_femur_offset:
  "0 \<le> rad_to_deg (arccos (3 / 8)) \<and> rad_to_deg (arccos (3 / 8)) \<le> 90"
  using rad_to_deg_arccos_range [of "3 / 8"] rad_to_deg_arccos_le_90 [of "3 / 8"] by simp

lemma scenario_solve_ik:
  "solve_ik scenario_target scenario_dims =
     Inr \<lparr> coxa = 90, femur = rad_to_deg (arccos (3 / 8)) + 90,
           tibia = 180 - rad_to_deg (arccos (3 / 8)) \<rparr>"
  using scenario_femur_offset
  by (simp add: solve_ik_def scenario_reach_distance scenario_ik_angles Let_def clamp_angle_def)
     (simp add: scenario_dims_def)

subsection \<open>Servo range of the returned angles\<close>

text \<open>
  C3.  Whenever \<open>solve_ik\<close> returns angles, each of the three angles lies in the closed
  interval from 0 to 180 degrees, for every target and every dimensions: the last step of
  the function clamps each angle.
\<close>

theorem solve_ik_angles_in_servo_range:
  assumes "solve_ik target dimensions = Inr angles"
  shows "0 \<le> coxa angles \<and> coxa angles \<le> 180 \<and>
         0 \<le> femur angles \<and> femur angles \<le> 180 \<and>
         0 \<le> tibia angles \<and> tibia angles \<le> 180"
  using assms
  by (auto simp add: solve_ik_def Let_def clamp_angle_range split: if_splits)

theorem solve_ik_angles_in_servo_range_witness:
  "solve_ik scenario_target scenario_dims =
     Inr \<lparr> coxa = 90, femur = rad_to_deg (arccos (3 / 8)) + 90,
           tibia = 180 - rad_to_deg (arccos (3 / 8)) \<rparr> \<and>
   0 \<le> rad_to_deg (arccos (3 / 8)) + 90 \<and> rad_to_deg (arccos (3 / 8)) + 90 \<le> 180 \<and>
   0 \<le> 180 - rad_to_deg (arccos (3 / 8)) \<and> 180 - rad_to_deg (arccos (3 / 8)) \<le> 180"
  using solve_ik_angles_in_servo_range [OF scenario_solve_ik] scenario_solve_ik
  by simp

subsection \<open>Reachability test\<close>

text \<open>
  C6.  \<open>is_reachable\<close> is true exactly when \<open>solve_ik\<close> succeeds and false exactly when
  \<open>solve_ik\<close> fails with one of the two unreachable errors.  It has no failure of its own:
  its value is a boolean for every target and dimensions.
\<close>

theorem is_reachable_iff_solve_ik_succeeds:
  "(is_reachable target dimensions = True \<or> is_reachable target dimensions = False) \<and>
   (is_reachable target dimensions = (\<exists>angles. solve_ik target dimensions = Inr angles)) \<and>
   ((is_reachable target dimensions = False) =
      (solve_ik target dimensions = Inl TooFar \<or> solve_ik target dimensions = Inl TooClose))"
proof -
  have "is_reachable target dimensions = (\<exists>angles. solve_ik target dimensions = Inr angles)"
    by (cases "solve_ik target dimensions") (simp_all add: is_reachable_def)
  moreover have "(is_reachable target dimensions = False) =
      (solve_ik target dimensions = Inl TooFar \<or> solve_ik target dimensions = Inl TooClose)"
    by (simp add: is_reachable_def solve_ik_def Let_def)
  ultimately show ?thesis by blast
qed

subsection \<open>The concrete scenario\<close>

text \<open>
  C8.  For dimensions coxa 20, femur 60, tibia 80 and target \<open>(100, 0, 0)\<close>, \<open>solve_ik\<close>
  succeeds; the coxa angle is 90 degrees (\<open>atan2(0, 100) = 0\<close> plus the offset of 90), so it
  is within every tolerance of 90; the femur and tibia angles lie between 0 and 180.
\<close>

theorem scenario_solve_ik_result:
  "\<exists>angles. solve_ik scenario_target scenario_dims = Inr angles \<and>
     coxa angles = 90 \<and> \<bar>coxa angles - 90\<bar> \<le> 1 / 1000 \<and>
     0 \<le> femur angles \<and> femur angles \<le> 180 \<and>
     0 \<le> tibia angles \<and> tibia angles \<le> 180"
  using scenario_femur_offset by (simp add: scenario_solve_ik)

subsection \<open>Height of the foot in forward kinematics\<close>

text \<open>
  C10.  For dimensions whose femur and tibia lengths are not negative and for every joint
  angles, the z coordinate returned by \<open>solve_fk\<close> is at most
  \<open>femur_length + tibia_length\<close> in absolute value.
\<close>

theorem solve_fk_z_bound:
  assumes "0 \<le> femur_length dimensions" and "0 \<le> tibia_length dimensions"
  shows "\<bar>z (solve_fk angles dimensions)\<bar> \<le> femur_length dimensions + tibia_length dimensions"
  using assms
    fk_vertical_bound [of "femur_length dimensions" "deg_to_rad (femur angles - 90)"
      "tibia_length dimensions"
      "deg_to_rad (femur angles - 90) + deg_to_rad (180 - tibia angles) - pi"]
  by (simp add: solve_fk_def Let_def)

theorem solve_fk_z_bound_witness:
  "0 \<le> femur_length scenario_dims \<and> 0 \<le> tibia_length scenario_dims \<and>
   \<bar>z (solve_fk \<lparr> coxa = 90, femur = 180, tibia = 90 \<rparr> scenario_dims)\<bar> \<le> 140"
proof -
  have f: "0 \<le> femur_length scenario_dims" and t: "0 \<le> tibia_length scenario_dims"
    by (simp_all add: scenario_dims_def)
  from solve_fk_z_bound [OF f t, of "\<lparr> coxa = 90, femur = 180, tibia = 90 \<rparr>"] f t
  show ?thesis by (simp add: scenario_dims_def)
qed

subsection \<open>Reachability bounds\<close>

lemma reach_distance_nonneg: "0 \<le> reach_distance t d"
  by (simp add: reach_distance_def Let_def)

lemma solve_ik_TooFar_iff:
  "(solve_ik t d = Inl TooFar) = (femur_length d + tibia_length d < reach_distance t d)"
  by (simp add: solve_ik_def Let_def)

lemma solve_ik_TooClose_iff:
  "(solve_ik t d = Inl TooClose) =
     (\<not> femur_length d + tibia_length d < reach_distance t d \<and>
      reach_distance t d < \<bar>femur_length d - tibia_length d\<bar>)"
  by (simp add: solve_ik_def Let_def)

lemma solve_ik_succeeds_iff:
  "(\<exists>a. solve_ik t d = Inr a) =
     (\<bar>femur_length d - tibia_length d\<bar> \<le> reach_distance t d \<and>
      reach_distance t d \<le> femur_length d + tibia_length d)"
  by (auto simp add: solve_ik_def Let_def)

lemma boundary_reach_distance:
  "0 \<le> e \<Longrightarrow> reach_distance \<lparr> x = 130 + e, y = 0, z = 0 \<rparr> boundary_dims = 100 + e"
  by (simp add: reach_distance_def horizontal_reach_def boundary_dims_def Let_def
      sqrt_eqI [of "130 + e"] sqrt_eqI [of "100 + e"])

lemma origin_reach_distance: "reach_distance origin d = \<bar>coxa_length d\<bar>"
  by (simp add: reach_distance_def horizontal_reach_def origin_def Let_def)

text \<open>
  C2.  \<open>solve_ik\<close> fails with \<open>TooFar\<close> exactly when \<open>reach_distance\<close> is greater than
  \<open>femur_length + tibia_length\<close>.  For femur and tibia lengths that are not negative it
  fails with \<open>TooClose\<close> exactly when \<open>reach_distance\<close> is less than
  \<open>\<bar>femur_length - tibia_length\<bar>\<close>.  A target whose \<open>reach_distance\<close> equals the maximum
  succeeds, and one at the maximum plus a positive \<open>e\<close> fails with \<open>TooFar\<close>.
\<close>

theorem solve_ik_unreachable_errors:
  "((solve_ik t d = Inl TooFar) = (femur_length d + tibia_length d < reach_distance t d)) \<and>
   (0 \<le> femur_length d \<and> 0 \<le> tibia_length d \<longrightarrow>
      (solve_ik t d = Inl TooClose) = (reach_distance t d < \<bar>femur_length d - tibia_length d\<bar>)) \<and>
   (0 \<le> femur_length d \<and> 0 \<le> tibia_length d \<and>
    reach_distance t d = femur_length d + tibia_length d \<longrightarrow> (\<exists>a. solve_ik t d = Inr a)) \<and>
   (0 < e \<and> reach_distance t d = femur_length d + tibia_length d + e \<longrightarrow>
      solve_ik t d = Inl TooFar)"
proof (intro conjI impI)
  show "(solve_ik t d = Inl TooFar) = (femur_length d + tibia_length d < reach_distance t d)"
    by (rule solve_ik_TooFar_iff)
next
  assume "0 \<le> femur_length d \<and> 0 \<le> tibia_length d"
  then have "\<bar>femur_length d - tibia_length d\<bar> \<le> femur_length d + tibia_length d" by linarith
  then show "(solve_ik t d = Inl TooClose) = (reach_distance t d < \<bar>femur_length d - tibia_length d\<bar>)"
    unfolding solve_ik_TooClose_iff by linarith
next
  assume "0 \<le> femur_length d \<and> 0 \<le> tibia_length d \<and>
    reach_distance t d = femur_length d + tibia_length d"
  then have "\<bar>femur_length d - tibia_length d\<bar> \<le> reach_distance t d \<and>
      reach_distance t d \<le> femur_length d + tibia_length d" by linarith
  then show "\<exists>a. solve_ik t d = Inr a" by (simp only: solve_ik_succeeds_iff)
next
  assume "0 < e \<and> reach_distance t d = femur_length d + tibia_length d + e"
  then show "solve_ik t d = Inl TooFar" by (simp add: solve_ik_TooFar_iff)
qed

theorem solve_ik_unreachable_errors_witness:
  "(\<exists>a. solve_ik \<lparr> x = 130, y = 0, z = 0 \<rparr> boundary_dims = Inr a) \<and>
   solve_ik \<lparr> x = 130, y = 0, z = 0 \<rparr> boundary_dims \<noteq> Inl TooClose \<and>
   solve_ik \<lparr> x = 131, y = 0, z = 0 \<rparr> boundary_dims = Inl TooFar"
proof -
  have r0: "reach_distance \<lparr> x = 130, y = 0, z = 0 \<rparr> boundary_dims = 100"
    using boundary_reach_distance [of 0] by simp
  have r1: "reach_distance \<lparr> x = 131, y = 0, z = 0 \<rparr> boundary_dims = 101"
    using boundary_reach_distance [of 1] by simp
  have d: "femur_length boundary_dims = 50" "tibia_length boundary_dims = 50"
    by (simp_all add: boundary_dims_def)
  from solve_ik_unreachable_errors [of "\<lparr> x = 130, y = 0, z = 0 \<rparr>" boundary_dims 1]
    solve_ik_unreachable_errors [of "\<lparr> x = 131, y = 0, z = 0 \<rparr>" boundary_dims 1]
  show ?thesis by (simp add: r0 r1 d)
qed

text \<open>
  C9.  Success of \<open>solve_ik\<close> is decided by \<open>reach_distance\<close> alone, which is the root of
  \<open>horizontal_reach\<^sup>2 + z\<^sup>2\<close>; a target closer to the z axis than \<open>coxa_length\<close> has a negative
  \<open>horizontal_reach\<close> and is judged like every other target.  For the target
  \<open>(0, 0, 0)\<close> and a coxa length that is not negative, \<open>reach_distance\<close> is \<open>coxa_length\<close>
  and \<open>solve_ik\<close> succeeds exactly when
  \<open>\<bar>femur_length - tibia_length\<bar> \<le> coxa_length \<le> femur_length + tibia_length\<close>.
\<close>

theorem solve_ik_inside_coxa_radius:
  "((\<exists>a. solve_ik t d = Inr a) =
      (\<bar>femur_length d - tibia_length d\<bar> \<le> reach_distance t d \<and>
       reach_distance t d \<le> femur_length d + tibia_length d)) \<and>
   reach_distance t d = sqrt (horizontal_reach t d * horizontal_reach t d + z t * z t) \<and>
   (sqrt (x t * x t + y t * y t) < coxa_length d \<longrightarrow> horizontal_reach t d < 0) \<and>
   (0 \<le> coxa_length d \<longrightarrow>
      reach_distance origin d = coxa_length d \<and>
      (\<exists>a. solve_ik origin d = Inr a) =
        (\<bar>femur_length d - tibia_length d\<bar> \<le> coxa_length d \<and>
         coxa_length d \<le> femur_length d + tibia_length d))"
proof (intro conjI impI)
  show "(\<exists>a. solve_ik t d = Inr a) =
      (\<bar>femur_length d - tibia_length d\<bar> \<le> reach_distance t d \<and>
       reach_distance t d \<le> femur_length d + tibia_length d)"
    by (rule solve_ik_succeeds_iff)
  show "reach_distance t d = sqrt (horizontal_reach t d * horizontal_reach t d + z t * z t)"
    by (simp add: reach_distance_def Let_def)
  show "horizontal_reach t d < 0" if "sqrt (x t * x t + y t * y t) < coxa_length d"
    using that by (simp add: horizontal_reach_def Let_def)
  show "reach_distance origin d = coxa_length d" if "0 \<le> coxa_length d"
    using that by (simp add: origin_reach_distance)
  show "(\<exists>a. solve_ik origin d = Inr a) =
        (\<bar>femur_length d - tibia_length d\<bar> \<le> coxa_length d \<and>
         coxa_length d \<le> femur_length d + tibia_length d)" if "0 \<le> coxa_length d"
    using that by (simp only: solve_ik_succeeds_iff origin_reach_distance abs_of_nonneg)
qed

theorem solve_ik_inside_coxa_radius_witness:
  "horizontal_reach origin scenario_dims = - 20 \<and>
   reach_distance origin scenario_dims = 20 \<and>
   (\<exists>a. solve_ik origin scenario_dims = Inr a)"
proof -
  have "sqrt (x origin * x origin + y origin * y origin) < coxa_length scenario_dims"
    and "0 \<le> coxa_length scenario_dims"
    by (simp_all add: origin_def scenario_dims_def)
  with solve_ik_inside_coxa_radius [of origin scenario_dims]
  have "reach_distance origin scenario_dims = coxa_length scenario_dims"
    and "(\<exists>a. solve_ik origin scenario_dims = Inr a) =
        (\<bar>femur_length scenario_dims - tibia_length scenario_dims\<bar> \<le> coxa_length scenario_dims \<and>
         coxa_length scenario_dims \<le> femur_length scenario_dims + tibia_length scenario_dims)"
    by blast+
  moreover have "horizontal_reach origin scenario_dims = - 20"
    by (simp add: horizontal_reach_def origin_def scenario_dims_def)
  ultimately show ?thesis by (simp add: scenario_dims_def)
qed

subsection \<open>Workspace boundary\<close>

lemma max_reach_at_height_outside_domain:
  assumes "\<bar>femur_length d + tibia_length d\<bar> < \<bar>h\<bar>"
  shows "max_reach_at_height h d = NaN"
proof -
  have "(femur_length d + tibia_length d)\<^sup>2 < h\<^sup>2"
    using assms by (rule abs_less_imp_square_less)
  then show ?thesis
    by (simp add: max_reach_at_height_def c_sqrt_def c_add_def Let_def power2_eq_square)
qed

text \<open>
  C4.  The specification asks for an explicit domain error when \<open>\<bar>z_height\<bar>\<close> exceeds
  \<open>femur_length + tibia_length\<close>.  The function has no such branch: at height 200 with
  femur 60 and tibia 80 the root's argument is negative and the NaN is returned.
\<close>

theorem max_reach_at_height_leaks_nan:
  "femur_length scenario_dims + tibia_length scenario_dims < \<bar>200\<bar> \<and>
   max_reach_at_height 200 scenario_dims = NaN"
  by (simp add: max_reach_at_height_def c_sqrt_def c_add_def Let_def scenario_dims_def)

text \<open>
  C4, amended.  When \<open>\<bar>z_height\<bar>\<close> exceeds \<open>femur_length + tibia_length\<close> (a sum that is
  not negative), \<open>max_reach_at_height\<close> raises no error: it returns NaN, the square root of
  a negative argument with \<open>coxa_length\<close> added.
\<close>

theorem max_reach_at_height_beyond_extension:
  assumes "0 \<le> femur_length d + tibia_length d"
    and "femur_length d + tibia_length d < \<bar>h\<bar>"
  shows "max_reach_at_height h d = NaN"
  using assms by (intro max_reach_at_height_outside_domain) linarith

theorem max_reach_at_height_beyond_extension_witness:
  "0 \<le> femur_length scenario_dims + tibia_length scenario_dims \<and>
   femur_length scenario_dims + tibia_length scenario_dims < \<bar>- 150\<bar> \<and>
   max_reach_at_height (- 150) scenario_dims = NaN"
proof -
  have a: "0 \<le> femur_length scenario_dims + tibia_length scenario_dims"
    and b: "femur_length scenario_dims + tibia_length scenario_dims < \<bar>- 150\<bar>"
    by (simp_all add: scenario_dims_def)
  from max_reach_at_height_beyond_extension [OF a b] a b show ?thesis by simp
qed

subsection \<open>Workspace boundary under binary64 rounding\<close>

lemma rne_of_int: "rne (of_int n) = n"
  by (simp add: rne_def)

lemma rne_near:
  assumes "\<bar>v - of_int n\<bar> < 1 / 2"
  shows "rne v = n"
proof -
  have "\<lfloor>v\<rfloor> = n \<or> \<lfloor>v\<rfloor> = n - 1" using assms by linarith
  then show ?thesis
  proof
    assume f: "\<lfloor>v\<rfloor> = n"
    then have "v - of_int n < 1 / 2" using assms by linarith
    then show ?thesis by (simp add: rne_def f)
  next
    assume f: "\<lfloor>v\<rfloor> = n - 1"
    have "1 / 2 < v - (of_int n - 1)" using assms by linarith
    then show ?thesis by (simp add: rne_def f)
  qed
qed

lemma rne_floor_bounds: "\<lfloor>v\<rfloor> \<le> rne v \<and> rne v \<le> \<lfloor>v\<rfloor> + 1"
  by (simp add: rne_def Let_def)

lemma rne_mono:
  assumes "v \<le> w"
  shows "rne v \<le> rne w"
proof (cases "\<lfloor>v\<rfloor> = \<lfloor>w\<rfloor>")
  case True
  then show ?thesis using assms by (auto simp add: rne_def Let_def)
next
  case False
  then have "\<lfloor>v\<rfloor> + 1 \<le> \<lfloor>w\<rfloor>" using assms floor_mono [of v w] by linarith
  then show ?thesis using rne_floor_bounds [of v] rne_floor_bounds [of w] by linarith
qed

lemma rne_minus: "rne (- v) = - rne v"
proof (cases "v = of_int \<lfloor>v\<rfloor>")
  case True
  then obtain n where v: "v = of_int n" ..
  have "rne (of_int (- n)) = - n" by (rule rne_of_int)
  then show ?thesis by (simp add: v rne_of_int)
next
  case False
  then have fl: "\<lfloor>- v\<rfloor> = - \<lfloor>v\<rfloor> - 1"
    by (metis ceiling_altdef diff_minus_eq_add floor_minus minus_diff_eq add.commute)
  show ?thesis
    unfolding rne_def Let_def fl using False
    by (auto simp add: field_simps)
qed

lemma rne_error: "\<bar>of_int (rne v) - v\<bar> \<le> 1 / 2"
proof -
  have "of_int \<lfloor>v\<rfloor> \<le> v" "v < of_int \<lfloor>v\<rfloor> + 1" by linarith+
  then show ?thesis by (auto simp add: rne_def Let_def abs_le_iff)
qed

lemma powr_eq_powi: "(2::real) powr of_int k = 2 powi k"
  by (simp add: powr_real_of_int power_int_def power_one_over inverse_eq_divide)

lemma binade_exponent:
  assumes "2 powi k \<le> \<bar>v\<bar>" and "\<bar>v\<bar> < 2 powi (k + 1)"
  shows "\<lfloor>log 2 \<bar>v\<bar>\<rfloor> = k"
proof -
  have pos: "0 < \<bar>v\<bar>" using assms(1) zero_less_power_int [of "2::real" k] by linarith
  have "2 powr of_int k \<le> \<bar>v\<bar> \<and> \<bar>v\<bar> < 2 powr (of_int k + 1)"
    using assms powr_eq_powi [of k] powr_eq_powi [of "k + 1"] by simp
  then show ?thesis using pos by (simp add: floor_log_eq_powr_iff)
qed

lemma binade_exists:
  assumes "v \<noteq> 0"
  shows "2 powi \<lfloor>log 2 \<bar>v\<bar>\<rfloor> \<le> \<bar>v\<bar> \<and> \<bar>v\<bar> < 2 powi (\<lfloor>log 2 \<bar>v\<bar>\<rfloor> + 1)"
proof -
  have pos: "0 < \<bar>v\<bar>" using assms by simp
  have "2 powr of_int \<lfloor>log 2 \<bar>v\<bar>\<rfloor> \<le> \<bar>v\<bar> \<and> \<bar>v\<bar> < 2 powr (of_int \<lfloor>log 2 \<bar>v\<bar>\<rfloor> + 1)"
    using floor_log_eq_powr_iff [of "\<bar>v\<bar>" 2 "\<lfloor>log 2 \<bar>v\<bar>\<rfloor>"] pos by simp
  then show ?thesis
    using powr_eq_powi [of "\<lfloor>log 2 \<bar>v\<bar>\<rfloor>"] powr_eq_powi [of "\<lfloor>log 2 \<bar>v\<bar>\<rfloor> + 1"] by simp
qed

lemma ulp_split: "(2::real) powi k = 2 ^ 52 * 2 powi (k - 52)"
  by (simp add: power_int_diff)

lemma ulp_split_next: "(2::real) powi (k + 1) = 2 ^ 53 * 2 powi (k - 52)"
  by (simp add: power_int_diff power_int_add)

lemma b64_in_binade:
  assumes "2 powi k \<le> \<bar>v\<bar>" and "\<bar>v\<bar> < 2 powi (k + 1)"
  shows "b64 v = of_int (rne (v / 2 powi (k - 52))) * 2 powi (k - 52)"
proof -
  have "0 < \<bar>v\<bar>" using assms(1) zero_less_power_int [of "2::real" k] by linarith
  then have "v \<noteq> 0" by simp
  then show ?thesis by (simp add: b64_def Let_def binade_exponent [OF assms])
qed

lemma b64_eval:
  assumes "2 powi k \<le> \<bar>v\<bar>" and "\<bar>v\<bar> < 2 powi (k + 1)"
    and "\<bar>v / 2 powi (k - 52) - of_int n\<bar> < 1 / 2"
  shows "b64 v = of_int n * 2 powi (k - 52)"
  by (simp only: b64_in_binade [OF assms(1,2)] rne_near [OF assms(3)])

lemma b64_zero: "b64 0 = 0"
  by (simp add: b64_def)

lemma b64_minus: "b64 (- v) = - b64 v"
  by (simp add: b64_def Let_def rne_minus)

lemma b64_binade_bounds:
  assumes lo: "2 powi k \<le> v" and hi: "v < 2 powi (k + 1)"
  shows "2 powi k \<le> b64 v \<and> b64 v \<le> 2 powi (k + 1)"
proof -
  let ?u = "(2::real) powi (k - 52)"
  have u: "0 < ?u" by simp
  have vpos: "0 < v" using lo zero_less_power_int [of "2::real" k] by linarith
  have b: "b64 v = of_int (rne (v / ?u)) * ?u"
    using lo hi vpos by (intro b64_in_binade) simp_all
  have lo_u: "2 powi k = of_int (2 ^ 52) * ?u"
    by (simp add: power_int_diff)
  have hi_u: "2 powi (k + 1) = of_int (2 ^ 53) * ?u"
    by (simp add: power_int_diff power_int_add)
  have "of_int (2 ^ 52) \<le> v / ?u" using lo u unfolding lo_u by (simp add: field_simps)
  then have "rne (of_int (2 ^ 52)) \<le> rne (v / ?u)" by (rule rne_mono)
  then have l: "(2 ^ 52 :: int) \<le> rne (v / ?u)" by (simp only: rne_of_int)
  have "v / ?u \<le> of_int (2 ^ 53)" using hi u unfolding hi_u by (simp add: field_simps)
  then have "rne (v / ?u) \<le> rne (of_int (2 ^ 53))" by (rule rne_mono)
  then have h: "rne (v / ?u) \<le> (2 ^ 53 :: int)" by (simp only: rne_of_int)
  have "of_int (2 ^ 52) * ?u \<le> of_int (rne (v / ?u)) * ?u"
    using l u by (intro mult_right_mono) simp_all
  moreover have "of_int (rne (v / ?u)) * ?u \<le> of_int (2 ^ 53) * ?u"
    using h u by (intro mult_right_mono) simp_all
  ultimately show ?thesis unfolding b lo_u hi_u by simp
qed

lemma b64_nonneg:
  assumes "0 \<le> v"
  shows "0 \<le> b64 v"
proof (cases "v = 0")
  case True
  then show ?thesis by (simp add: b64_zero)
next
  case False
  with assms have pos: "0 < v" by simp
  define k where "k = \<lfloor>log 2 \<bar>v\<bar>\<rfloor>"
  have "2 powi k \<le> v \<and> v < 2 powi (k + 1)"
    using binade_exists [OF False] pos by (simp add: k_def)
  then have "2 powi k \<le> b64 v" using b64_binade_bounds [of k v] by simp
  then show ?thesis using zero_less_power_int [of "2::real" k] by linarith
qed

lemma b64_mono_pos:
  assumes pos: "0 < v" and le: "v \<le> w"
  shows "b64 v \<le> b64 w"
proof -
  define k where "k = \<lfloor>log 2 \<bar>v\<bar>\<rfloor>"
  define l where "l = \<lfloor>log 2 \<bar>w\<bar>\<rfloor>"
  have wpos: "0 < w" using pos le by linarith
  have bv: "2 powi k \<le> v \<and> v < 2 powi (k + 1)"
    using binade_exists [of v] pos by (simp add: k_def)
  have bw: "2 powi l \<le> w \<and> w < 2 powi (l + 1)"
    using binade_exists [of w] wpos by (simp add: l_def)
  have "(2::real) powi k < 2 powi (l + 1)" using bv bw le by linarith
  moreover have "(2::real) powi (l + 1) \<le> 2 powi k" if "l + 1 \<le> k"
    using that by (intro power_int_increasing) simp_all
  ultimately have "k < l + 1" by fastforce
  then consider "k = l" | "k + 1 \<le> l" by linarith
  then show ?thesis
  proof cases
    case 1
    let ?u = "(2::real) powi (k - 52)"
    have u: "0 < ?u" by simp
    have "b64 v = of_int (rne (v / ?u)) * ?u"
      using bv pos by (intro b64_in_binade) simp_all
    moreover have "b64 w = of_int (rne (w / ?u)) * ?u"
      using bw wpos 1 by (intro b64_in_binade) simp_all
    moreover have "rne (v / ?u) \<le> rne (w / ?u)"
      using le u by (intro rne_mono divide_right_mono) simp_all
    ultimately show ?thesis using u by simp
  next
    case 2
    have "b64 v \<le> 2 powi (k + 1)" using b64_binade_bounds [of k v] bv by simp
    also have "\<dots> \<le> 2 powi l" using 2 by (intro power_int_increasing) simp_all
    also have "\<dots> \<le> b64 w" using b64_binade_bounds [of l w] bw by simp
    finally show ?thesis .
  qed
qed

lemma b64_mono:
  assumes "v \<le> w"
  shows "b64 v \<le> b64 w"
proof -
  consider "0 < v" | "v \<le> 0" "0 \<le> w" | "w < 0" by linarith
  then show ?thesis
  proof cases
    case 1
    then show ?thesis using assms by (rule b64_mono_pos)
  next
    case 2
    have "0 \<le> b64 (- v)" using 2(1) by (intro b64_nonneg) simp
    then have "b64 v \<le> 0" by (simp add: b64_minus)
    moreover have "0 \<le> b64 w" using 2(2) by (rule b64_nonneg)
    ultimately show ?thesis by linarith
  next
    case 3
    then have "0 < - w" "- w \<le> - v" using assms by simp_all
    then have "b64 (- w) \<le> b64 (- v)" by (rule b64_mono_pos)
    then show ?thesis by (simp add: b64_minus)
  qed
qed

lemma b64_abs: "b64 \<bar>v\<bar> = \<bar>b64 v\<bar>"
proof (cases "0 \<le> v")
  case True
  then show ?thesis using b64_nonneg [of v] by simp
next
  case False
  then have "0 \<le> b64 (- v)" by (intro b64_nonneg) simp
  then show ?thesis using False by (simp add: b64_minus)
qed

lemma b64_abs_error:
  assumes "2 powi k \<le> \<bar>v\<bar>" and "\<bar>v\<bar> < 2 powi (k + 1)"
  shows "\<bar>b64 v - v\<bar> \<le> 2 powi (k - 52) / 2"
proof -
  let ?u = "(2::real) powi (k - 52)"
  have u: "0 < ?u" by simp
  have "b64 v - v = (of_int (rne (v / ?u)) - v / ?u) * ?u"
    using u by (simp add: b64_in_binade [OF assms] left_diff_distrib)
  then have "\<bar>b64 v - v\<bar> = \<bar>of_int (rne (v / ?u)) - v / ?u\<bar> * ?u"
    using u by (simp add: abs_mult)
  also have "\<dots> \<le> (1 / 2) * ?u"
    using rne_error [of "v / ?u"] u by (intro mult_right_mono) simp_all
  finally show ?thesis by simp
qed

lemma b64_rel_error: "\<bar>b64 v - v\<bar> \<le> \<bar>v\<bar> / 2 ^ 53"
proof (cases "v = 0")
  case True
  then show ?thesis by (simp add: b64_zero)
next
  case False
  define k where "k = \<lfloor>log 2 \<bar>v\<bar>\<rfloor>"
  have b: "2 powi k \<le> \<bar>v\<bar>" "\<bar>v\<bar> < 2 powi (k + 1)"
    using binade_exists [OF False] by (simp_all add: k_def)
  have "\<bar>b64 v - v\<bar> \<le> 2 powi (k - 52) / 2" using b by (rule b64_abs_error)
  also have "\<dots> = 2 powi k / 2 ^ 53" by (simp add: ulp_split [of k])
  also have "\<dots> \<le> \<bar>v\<bar> / 2 ^ 53" using b(1) by (simp add: divide_right_mono)
  finally show ?thesis .
qed

lemma b64_power_of_two: "b64 (2 powi j) = 2 powi j"
proof -
  let ?u = "(2::real) powi (j - 52)"
  have u: "0 < ?u" by simp
  have q: "2 powi j / ?u = of_int (2 ^ 52)"
    using u by (simp add: ulp_split [of j])
  have "b64 (2 powi j) = of_int (rne (2 powi j / ?u)) * ?u"
    by (rule b64_in_binade) (simp_all add: power_int_add)
  also have "\<dots> = of_int (2 ^ 52) * ?u" by (simp only: q rne_of_int)
  also have "\<dots> = 2 powi j" by (simp add: ulp_split [of j])
  finally show ?thesis .
qed

lemma b64_of_scaled_int:
  assumes "2 ^ 52 \<le> n" and "n \<le> (2 ^ 53 :: int)"
  shows "b64 (of_int n * 2 powi (k - 52)) = of_int n * 2 powi (k - 52)"
proof (cases "n = 2 ^ 53")
  case True
  have e: "of_int n * 2 powi (k - 52) = (2::real) powi (k + 1)"
    by (simp add: True ulp_split_next [of k])
  show ?thesis by (simp only: e b64_power_of_two)
next
  case False
  with assms have n: "n < 2 ^ 53" by simp
  let ?u = "(2::real) powi (k - 52)"
  have u: "0 < ?u" by simp
  have "(2::real) ^ 52 \<le> of_int n" using assms(1) by (metis of_int_le_iff of_int_numeral of_int_power)
  then have lo: "2 powi k \<le> \<bar>of_int n * ?u\<bar>"
    using u by (simp add: ulp_split [of k] abs_mult)
  have "of_int n < (2::real) ^ 53" using n by (metis of_int_less_iff of_int_numeral of_int_power)
  moreover have "0 \<le> (of_int n :: real)" using assms(1) by simp
  ultimately have hi: "\<bar>of_int n * ?u\<bar> < 2 powi (k + 1)"
    using u by (simp add: ulp_split_next [of k] abs_mult)
  show ?thesis using lo hi by (rule b64_eval) (use u in simp)
qed

lemma b64_mantissa:
  assumes "0 < v"
  obtains n k where "b64 v = of_int n * 2 powi (k - 52)" and "2 ^ 52 \<le> n" and "n \<le> 2 ^ 53"
    and "2 powi k \<le> v" and "v < 2 powi (k + 1)"
proof -
  define k where "k = \<lfloor>log 2 \<bar>v\<bar>\<rfloor>"
  let ?u = "(2::real) powi (k - 52)"
  define n where "n = rne (v / ?u)"
  have u: "0 < ?u" by simp
  have b: "2 powi k \<le> v" "v < 2 powi (k + 1)"
    using binade_exists [of v] assms by (simp_all add: k_def)
  have e: "b64 v = of_int n * ?u"
    unfolding n_def using b assms by (intro b64_in_binade) simp_all
  have "2 powi k \<le> b64 v \<and> b64 v \<le> 2 powi (k + 1)" using b by (rule b64_binade_bounds)
  then have "2 ^ 52 * ?u \<le> of_int n * ?u" "of_int n * ?u \<le> 2 ^ 53 * ?u"
    by (simp_all only: e ulp_split [of k, symmetric] ulp_split_next [of k, symmetric])
  then have "(2::real) ^ 52 \<le> of_int n" "of_int n \<le> (2::real) ^ 53" using u by simp_all
  then have "real_of_int (2 ^ 52) \<le> of_int n" "of_int n \<le> real_of_int (2 ^ 53)" by simp_all
  then have "2 ^ 52 \<le> n" "n \<le> 2 ^ 53" by (simp_all only: of_int_le_iff)
  with e b show ?thesis by (intro that [of n k])
qed

lemma b64_idem: "b64 (b64 v) = b64 v"
proof -
  have pos: "b64 (b64 w) = b64 w" if "0 < w" for w
  proof -
    from that obtain n k where "b64 w = of_int n * 2 powi (k - 52)" "2 ^ 52 \<le> n" "n \<le> 2 ^ 53"
      by (rule b64_mantissa)
    then show ?thesis by (simp only: b64_of_scaled_int)
  qed
  consider "0 < v" | "v = 0" | "0 < - v" by linarith
  then show ?thesis
  proof cases
    case 1
    then show ?thesis by (rule pos)
  next
    case 2
    then show ?thesis by (simp add: b64_zero)
  next
    case 3
    then have "b64 (b64 (- v)) = b64 (- v)" by (rule pos)
    then show ?thesis by (simp add: b64_minus)
  qed
qed

lemma double_mantissa:
  assumes "0 < l" and "b64 l = l"
  obtains m k where "l = of_int m * 2 powi (k - 52)" and "2 ^ 52 \<le> m" and "m < 2 ^ 53"
proof -
  from assms(1) obtain n k where e: "b64 l = of_int n * 2 powi (k - 52)"
    and lo: "2 ^ 52 \<le> n" and hi: "l < 2 powi (k + 1)"
    by (rule b64_mantissa)
  let ?u = "(2::real) powi (k - 52)"
  have u: "0 < ?u" by simp
  have "of_int n * ?u < 2 ^ 53 * ?u"
    using hi by (simp only: e [symmetric] assms(2) ulp_split_next [of k, symmetric])
  then have "of_int n < (2::real) ^ 53" using u by simp
  then have "real_of_int n < real_of_int (2 ^ 53)" by simp
  then have "n < 2 ^ 53" by (simp only: of_int_less_iff)
  moreover have "l = of_int n * ?u" using e assms(2) by simp
  ultimately show ?thesis using lo by (intro that [of n k])
qed

lemma b64_sqrt_square_normal:
  fixes m :: int and k :: int
  assumes lo: "2 ^ 52 < m" and hi: "m < 2 ^ 53"
  defines "u \<equiv> (2::real) powi (k - 52)"
  shows "b64 (sqrt (b64 (of_int m * u * (of_int m * u)))) = of_int m * u"
proof -
  define M :: real where "M = of_int m"
  define y where "y = b64 (M * u * (M * u))"
  define U where "U = u * u"
  have u: "0 < u" by (simp add: u_def)
  have U: "0 < U" using u by (simp add: U_def)
  have "real_of_int (2 ^ 52 + 1) \<le> of_int m" "real_of_int m \<le> of_int (2 ^ 53 - 1)"
    using lo hi by (simp_all only: of_int_le_iff)
  then have Mlo: "2 ^ 52 + 1 \<le> M" and Mhi: "M \<le> 2 ^ 53 - 1" by (simp_all add: M_def)
  have "(0::real) \<le> 2 ^ 52 + 1" by simp
  then have Mpos: "0 \<le> M" using Mlo by linarith
  have "M * M \<le> M * (2 ^ 53 - 1)" using Mhi Mpos by (rule mult_left_mono)
  then have "M * M / 2 ^ 53 \<le> M - M / 2 ^ 53" by (simp add: field_simps)
  moreover have "1 / 2 \<le> M / 2 ^ 53" using Mlo by simp
  ultimately have a: "M * M / 2 ^ 53 \<le> M - 1 / 2" by linarith
  have sq: "M * u * (M * u) = M * M * U" by (simp add: U_def algebra_simps)
  have "\<bar>y - M * M * U\<bar> \<le> \<bar>M * M * U\<bar> / 2 ^ 53"
    unfolding y_def sq by (rule b64_rel_error)
  also have "\<bar>M * M * U\<bar> = M * M * U" using U by (simp add: abs_mult)
  also have "M * M * U / 2 ^ 53 = (M * M / 2 ^ 53) * U" by simp
  also have "\<dots> \<le> (M - 1 / 2) * U" using a U by (intro mult_right_mono) simp_all
  finally have err: "\<bar>y - M * M * U\<bar> \<le> (M - 1 / 2) * U" .
  have up_sq: "(M * u + u / 2)\<^sup>2 = M * M * U + (M + 1 / 4) * U"
    by (simp add: U_def power2_eq_square algebra_simps)
  have dn_sq: "(M * u - u / 2)\<^sup>2 = M * M * U - (M - 1 / 4) * U"
    by (simp add: U_def power2_eq_square algebra_simps)
  have gap1: "(M - 1 / 2) * U < (M + 1 / 4) * U" using U by (simp add: algebra_simps)
  have gap2: "- ((M - 1 / 2) * U) > - ((M - 1 / 4) * U)" using U by (simp add: algebra_simps)
  have y_up: "y < (M * u + u / 2)\<^sup>2" unfolding up_sq using err gap1 by linarith
  have y_dn: "(M * u - u / 2)\<^sup>2 < y" unfolding dn_sq using err gap2 by linarith
  have "0 \<le> M * u + u / 2" using Mpos u by simp
  then have s_up: "sqrt y < M * u + u / 2" using y_up by (intro real_less_lsqrt)
  have s_dn: "M * u - u / 2 < sqrt y" using y_dn by (rule real_less_rsqrt)
  have "2 ^ 52 * u \<le> M * u - u / 2"
  proof -
    have "(2 ^ 52 + 1) * u \<le> M * u" using Mlo u by (intro mult_right_mono) simp_all
    then have "2 ^ 52 * u + u \<le> M * u" by (simp only: distrib_right mult_1)
    then show ?thesis using u by linarith
  qed
  then have b_lo: "2 powi k \<le> \<bar>sqrt y\<bar>"
    using s_dn by (simp add: u_def ulp_split [of k])
  have "M * u + u / 2 < 2 ^ 53 * u"
  proof -
    have "M * u \<le> (2 ^ 53 - 1) * u" using Mhi u by (intro mult_right_mono) simp_all
    then have "M * u \<le> 2 ^ 53 * u - u" by (simp only: left_diff_distrib mult_1)
    then show ?thesis using u by linarith
  qed
  moreover have "0 \<le> y" using y_dn zero_le_power2 [of "M * u - u / 2"] by linarith
  then have "\<bar>sqrt y\<bar> = sqrt y" by simp
  ultimately have b_hi: "\<bar>sqrt y\<bar> < 2 powi (k + 1)"
    using s_up by (simp add: u_def ulp_split_next [of k])
  have "(M - 1 / 2) * u < sqrt y" "sqrt y < (M + 1 / 2) * u"
    using s_dn s_up by (simp_all add: algebra_simps)
  then have "M - 1 / 2 < sqrt y / u" "sqrt y / u < M + 1 / 2"
    using u by (simp_all add: field_simps)
  then have "\<bar>sqrt y / u - M\<bar> < 1 / 2" by linarith
  then have near: "\<bar>sqrt y / 2 powi (k - 52) - of_int m\<bar> < 1 / 2"
    by (simp only: u_def M_def)
  have "b64 (sqrt y) = of_int m * 2 powi (k - 52)"
    using b_lo b_hi near by (rule b64_eval)
  then show ?thesis by (simp add: y_def M_def u_def)
qed

lemma b64_sqrt_square:
  assumes "0 \<le> l" and "b64 l = l"
  shows "b64 (sqrt (b64 (l * l))) = l"
proof (cases "l = 0")
  case True
  then show ?thesis by (simp add: b64_zero)
next
  case False
  with assms(1) have "0 < l" by simp
  then obtain m k where l: "l = of_int m * 2 powi (k - 52)" and lo: "2 ^ 52 \<le> m" and hi: "m < 2 ^ 53"
    using assms(2) by (rule double_mantissa)
  show ?thesis
  proof (cases "m = 2 ^ 52")
    case True
    then have p: "l = 2 powi k" by (simp add: l ulp_split [of k])
    have "(2::real) powi (k + k) = 2 powi k * 2 powi k" by (rule power_int_add) simp
    then have "l * l = 2 powi (k + k)" by (simp only: p)
    then have "b64 (l * l) = l * l" by (simp only: b64_power_of_two)
    moreover have "sqrt (l * l) = l" using assms(1) by simp
    ultimately show ?thesis by (simp only: assms(2))
  next
    case False
    with lo have "2 ^ 52 < m" by simp
    then show ?thesis unfolding l using hi by (rule b64_sqrt_square_normal)
  qed
qed

lemma square_le_of_abs_le: "\<bar>a\<bar> \<le> \<bar>b\<bar> \<Longrightarrow> a * a \<le> (b::real) * b"
  using abs_le_square_iff [of a b] by (simp add: power2_eq_square)

lemma max_reach_at_height_b64_steps:
  assumes "b64 (femur_length d + tibia_length d) = l"
    and "b64 (l * l) = a" and "b64 (h * h) = b" and "b64 (a - b) = c" and "0 \<le> c"
    and "b64 (sqrt c) = s" and "b64 (s + coxa_length d) = r"
  shows "max_reach_at_height_b64 h d = Fin r"
  using assms by (simp add: max_reach_at_height_b64_def sqrt_b64_def add_b64_def Let_def)

lemma max_reach_at_height_b64_in_domain:
  assumes sq: "h * h \<le> b64 (femur_length d + tibia_length d) * b64 (femur_length d + tibia_length d)"
  shows "max_reach_at_height_b64 h d =
           Fin (b64 (b64 (sqrt (b64 (
             b64 (b64 (femur_length d + tibia_length d) * b64 (femur_length d + tibia_length d)) -
             b64 (h * h)))) + coxa_length d))"
proof -
  let ?l = "b64 (femur_length d + tibia_length d)"
  have "b64 (h * h) \<le> b64 (?l * ?l)" using sq by (rule b64_mono)
  then have "0 \<le> b64 (?l * ?l) - b64 (h * h)" by simp
  then have "0 \<le> b64 (b64 (?l * ?l) - b64 (h * h))" by (rule b64_nonneg)
  then show ?thesis
    by (simp add: max_reach_at_height_b64_def sqrt_b64_def add_b64_def Let_def)
qed

lemma double_within_extension:
  assumes "\<bar>h\<bar> \<le> femur_length d + tibia_length d" and "b64 h = h"
  shows "h * h \<le> b64 (femur_length d + tibia_length d) * b64 (femur_length d + tibia_length d)"
proof -
  have "b64 \<bar>h\<bar> \<le> b64 (femur_length d + tibia_length d)" using assms(1) by (rule b64_mono)
  then have "\<bar>h\<bar> \<le> b64 (femur_length d + tibia_length d)" by (simp add: b64_abs assms(2))
  then have "\<bar>h\<bar> \<le> \<bar>b64 (femur_length d + tibia_length d)\<bar>" by linarith
  then show ?thesis by (rule square_le_of_abs_le)
qed

lemma max_reach_at_height_b64_antimono:
  assumes le: "\<bar>h1\<bar> \<le> \<bar>h2\<bar>" and dom: "\<bar>h2\<bar> \<le> femur_length d + tibia_length d"
    and dbl: "b64 h2 = h2"
  shows "\<exists>r1 r2. max_reach_at_height_b64 h1 d = Fin r1 \<and>
           max_reach_at_height_b64 h2 d = Fin r2 \<and> r2 \<le> r1"
proof -
  let ?l = "b64 (femur_length d + tibia_length d)"
  have s2: "h2 * h2 \<le> ?l * ?l" using dom dbl by (rule double_within_extension)
  have s12: "h1 * h1 \<le> h2 * h2" using le by (rule square_le_of_abs_le)
  then have s1: "h1 * h1 \<le> ?l * ?l" using s2 by linarith
  have "b64 (h1 * h1) \<le> b64 (h2 * h2)" using s12 by (rule b64_mono)
  then have "b64 (?l * ?l) - b64 (h2 * h2) \<le> b64 (?l * ?l) - b64 (h1 * h1)" by simp
  then have "b64 (b64 (?l * ?l) - b64 (h2 * h2)) \<le> b64 (b64 (?l * ?l) - b64 (h1 * h1))"
    by (rule b64_mono)
  then have "sqrt (b64 (b64 (?l * ?l) - b64 (h2 * h2))) \<le>
      sqrt (b64 (b64 (?l * ?l) - b64 (h1 * h1)))" by simp
  then have "b64 (sqrt (b64 (b64 (?l * ?l) - b64 (h2 * h2)))) \<le>
      b64 (sqrt (b64 (b64 (?l * ?l) - b64 (h1 * h1))))" by (rule b64_mono)
  then have "b64 (sqrt (b64 (b64 (?l * ?l) - b64 (h2 * h2)))) + coxa_length d \<le>
      b64 (sqrt (b64 (b64 (?l * ?l) - b64 (h1 * h1)))) + coxa_length d" by simp
  then have "b64 (b64 (sqrt (b64 (b64 (?l * ?l) - b64 (h2 * h2)))) + coxa_length d) \<le>
      b64 (b64 (sqrt (b64 (b64 (?l * ?l) - b64 (h1 * h1)))) + coxa_length d)" by (rule b64_mono)
  then show ?thesis
    by (simp add: max_reach_at_height_b64_in_domain [OF s1] max_reach_at_height_b64_in_domain [OF s2])
qed

lemma max_reach_at_height_b64_at_zero:
  assumes "0 \<le> femur_length d + tibia_length d"
  shows "max_reach_at_height_b64 0 d =
           Fin (b64 (b64 (femur_length d + tibia_length d) + coxa_length d))"
proof -
  let ?l = "b64 (femur_length d + tibia_length d)"
  have l0: "0 \<le> ?l" using assms by (rule b64_nonneg)
  have "0 * 0 \<le> ?l * ?l" by simp
  then have "max_reach_at_height_b64 0 d =
      Fin (b64 (b64 (sqrt (b64 (b64 (?l * ?l) - b64 (0 * 0)))) + coxa_length d))"
    by (rule max_reach_at_height_b64_in_domain)
  also have "b64 (b64 (?l * ?l) - b64 (0 * 0)) = b64 (?l * ?l)"
    by (simp add: b64_zero b64_idem)
  also have "b64 (sqrt (b64 (?l * ?l))) = ?l"
    using l0 b64_idem by (rule b64_sqrt_square)
  finally show ?thesis .
qed

lemma b64_140: "b64 140 = 140"
  using b64_eval [of 7 140 "140 * 2 ^ 45"] by simp

lemma b64_160: "b64 160 = 160"
  using b64_eval [of 7 160 "160 * 2 ^ 45"] by simp

lemma b64_19600: "b64 19600 = 19600"
  using b64_eval [of 14 19600 "19600 * 2 ^ 38"] by simp

lemma b64_84: "b64 84 = 84"
  using b64_eval [of 6 84 "84 * 2 ^ 46"] by simp

lemma b64_two_to_minus_60: "b64 (1 / 2 ^ 60) = 1 / 2 ^ 60"
  using b64_eval [of "- 60" "1 / 2 ^ 60" "2 ^ 52"] by simp

lemma b64_two_to_minus_30: "b64 (1 / 2 ^ 30) = 1 / 2 ^ 30"
  using b64_eval [of "- 30" "1 / 2 ^ 30" "2 ^ 52"] by simp

lemma b64_absorbs: "b64 (19600 - 1 / 2 ^ 60) = 19600"
  using b64_eval [of 14 "19600 - 1 / 2 ^ 60" "19600 * 2 ^ 38"] by simp

lemma sqrt_19600: "sqrt 19600 = 140"
  by (rule sqrt_eqI) simp_all

lemma scenario_b64_at_zero: "max_reach_at_height_b64 0 scenario_dims = Fin 160"
proof (rule max_reach_at_height_b64_steps)
  show "b64 (femur_length scenario_dims + tibia_length scenario_dims) = 140"
    using b64_140 by (simp add: scenario_dims_def)
  show "b64 (140 * 140) = 19600" using b64_19600 by simp
  show "b64 (0 * 0) = 0" by (simp add: b64_zero)
  show "b64 (19600 - 0) = 19600" using b64_19600 by simp
  show "0 \<le> (19600::real)" by simp
  show "b64 (sqrt 19600) = 140" by (simp only: sqrt_19600 b64_140)
  show "b64 (140 + coxa_length scenario_dims) = 160"
    using b64_160 by (simp add: scenario_dims_def)
qed

lemma scenario_b64_at_small: "max_reach_at_height_b64 (1 / 2 ^ 30) scenario_dims = Fin 160"
proof (rule max_reach_at_height_b64_steps)
  show "b64 (femur_length scenario_dims + tibia_length scenario_dims) = 140"
    using b64_140 by (simp add: scenario_dims_def)
  show "b64 (140 * 140) = 19600" using b64_19600 by simp
  have "(1 / 2 ^ 30) * (1 / 2 ^ 30) = (1 / 2 ^ 60 :: real)" by simp
  then show "b64 (1 / 2 ^ 30 * (1 / 2 ^ 30)) = 1 / 2 ^ 60"
    by (simp only: b64_two_to_minus_60)
  show "b64 (19600 - 1 / 2 ^ 60) = 19600" by (rule b64_absorbs)
  show "0 \<le> (19600::real)" by simp
  show "b64 (sqrt 19600) = 140" by (simp only: sqrt_19600 b64_140)
  show "b64 (140 + coxa_length scenario_dims) = 160"
    using b64_160 by (simp add: scenario_dims_def)
qed

lemma scenario_b64_at_84: "max_reach_at_height_b64 84 scenario_dims = Fin 132"
proof (rule max_reach_at_height_b64_steps)
  show "b64 (femur_length scenario_dims + tibia_length scenario_dims) = 140"
    using b64_140 by (simp add: scenario_dims_def)
  show "b64 (140 * 140) = 19600" using b64_19600 by simp
  show "b64 (84 * 84) = 7056" using b64_eval [of 12 7056 "7056 * 2 ^ 40"] by simp
  show "b64 (19600 - 7056) = 12544" using b64_eval [of 13 12544 "12544 * 2 ^ 39"] by simp
  show "0 \<le> (12544::real)" by simp
  have "sqrt 12544 = 112" by (rule sqrt_eqI) simp_all
  moreover have "b64 112 = 112" using b64_eval [of 6 112 "112 * 2 ^ 46"] by simp
  ultimately show "b64 (sqrt 12544) = 112" by simp
  show "b64 (112 + coxa_length scenario_dims) = 132"
    using b64_eval [of 7 132 "132 * 2 ^ 45"] by (simp add: scenario_dims_def)
qed

text \<open>
  C5.  The specification says that the result strictly decreases as \<open>\<bar>z_height\<bar>\<close> grows
  toward the extension limit.  In binary64 it does not: for femur 60 and tibia 80 the
  difference \<open>19600 - z_height\<^sup>2\<close> rounds to 19600 at \<open>z_height = 1 / 2 ^ 30\<close>, so the heights
  0 and \<open>1 / 2 ^ 30\<close> both give 160.
\<close>

theorem max_reach_at_height_b64_plateau:
  "\<bar>0\<bar> < \<bar>1 / 2 ^ 30 :: real\<bar> \<and>
   \<bar>1 / 2 ^ 30\<bar> \<le> femur_length scenario_dims + tibia_length scenario_dims \<and>
   max_reach_at_height_b64 0 scenario_dims = Fin 160 \<and>
   max_reach_at_height_b64 (1 / 2 ^ 30) scenario_dims = Fin 160"
proof -
  have "femur_length scenario_dims + tibia_length scenario_dims = 140"
    by (simp add: scenario_dims_def)
  moreover have "\<bar>0\<bar> < \<bar>1 / 2 ^ 30 :: real\<bar>" "\<bar>1 / 2 ^ 30 :: real\<bar> \<le> 140" by simp_all
  ultimately show ?thesis
    using scenario_b64_at_zero scenario_b64_at_small by (simp only: simp_thms)
qed

text \<open>
  C5, amended.  For a double \<open>z_height\<close> with \<open>\<bar>z_height\<bar> \<le> femur_length + tibia_length\<close> the
  result is the finite value of \<open>sqrt ((femur_length + tibia_length)\<^sup>2 - z_height\<^sup>2) +
  coxa_length\<close> with each operation rounded to binary64.  At height 0 it is
  \<open>femur_length + tibia_length + coxa_length\<close>, rounded: the root of the rounded square of a
  double gives the double back.  Of two heights within the extension limit, the one with
  the greater absolute value never has the greater result; the two results can be equal.
\<close>

theorem max_reach_at_height_b64_workspace:
  "(\<bar>h\<bar> \<le> femur_length d + tibia_length d \<and> b64 h = h \<longrightarrow>
      max_reach_at_height_b64 h d =
        Fin (b64 (b64 (sqrt (b64 (
          b64 (b64 (femur_length d + tibia_length d) * b64 (femur_length d + tibia_length d)) -
          b64 (h * h)))) + coxa_length d))) \<and>
   (0 \<le> femur_length d + tibia_length d \<longrightarrow>
      max_reach_at_height_b64 0 d =
        Fin (b64 (b64 (femur_length d + tibia_length d) + coxa_length d))) \<and>
   (\<bar>h1\<bar> \<le> \<bar>h2\<bar> \<and> \<bar>h2\<bar> \<le> femur_length d + tibia_length d \<and> b64 h2 = h2 \<longrightarrow>
      (\<exists>r1 r2. max_reach_at_height_b64 h1 d = Fin r1 \<and>
         max_reach_at_height_b64 h2 d = Fin r2 \<and> r2 \<le> r1))"
proof (intro conjI impI)
  assume "\<bar>h\<bar> \<le> femur_length d + tibia_length d \<and> b64 h = h"
  then have "h * h \<le> b64 (femur_length d + tibia_length d) * b64 (femur_length d + tibia_length d)"
    by (intro double_within_extension) simp_all
  then show "max_reach_at_height_b64 h d =
        Fin (b64 (b64 (sqrt (b64 (
          b64 (b64 (femur_length d + tibia_length d) * b64 (femur_length d + tibia_length d)) -
          b64 (h * h)))) + coxa_length d))"
    by (rule max_reach_at_height_b64_in_domain)
next
  assume "0 \<le> femur_length d + tibia_length d"
  then show "max_reach_at_height_b64 0 d =
        Fin (b64 (b64 (femur_length d + tibia_length d) + coxa_length d))"
    by (rule max_reach_at_height_b64_at_zero)
next
  assume "\<bar>h1\<bar> \<le> \<bar>h2\<bar> \<and> \<bar>h2\<bar> \<le> femur_length d + tibia_length d \<and> b64 h2 = h2"
  then show "\<exists>r1 r2. max_reach_at_height_b64 h1 d = Fin r1 \<and>
         max_reach_at_height_b64 h2 d = Fin r2 \<and> r2 \<le> r1"
    by (intro max_reach_at_height_b64_antimono) simp_all
qed

theorem max_reach_at_height_b64_workspace_witness:
  "max_reach_at_height_b64 0 scenario_dims = Fin 160 \<and>
   max_reach_at_height_b64 84 scenario_dims = Fin 132 \<and>
   (\<exists>r1 r2. max_reach_at_height_b64 0 scenario_dims = Fin r1 \<and>
      max_reach_at_height_b64 84 scenario_dims = Fin r2 \<and> r2 \<le> r1)"
proof -
  have l: "femur_length scenario_dims + tibia_length scenario_dims = 140"
    by (simp add: scenario_dims_def)
  have hyp: "\<bar>0\<bar> \<le> \<bar>84::real\<bar> \<and> \<bar>84\<bar> \<le> femur_length scenario_dims + tibia_length scenario_dims \<and>
      b64 84 = 84"
    by (simp add: l b64_84)
  from max_reach_at_height_b64_workspace [of 84 scenario_dims 0 84] hyp
  have "\<exists>r1 r2. max_reach_at_height_b64 0 scenario_dims = Fin r1 \<and>
      max_reach_at_height_b64 84 scenario_dims = Fin r2 \<and> r2 \<le> r1"
    by blast
  then show ?thesis by (simp add: scenario_b64_at_zero scenario_b64_at_84)
qed

subsection \<open>Forward kinematics is total\<close>

text \<open>
  C7.  \<open>solve_fk\<close> has no error branch and uses only sums, products, sine and cosine, so
  it returns a position for every angles and dimensions, in particular for angles in
  \<open>[0, 180]\<^sup>3\<close>.  The position is finite: x and y are bounded by the sum of the three
  lengths' absolute values, z by the sum of the femur's and the tibia's.
\<close>

theorem solve_fk_total:
  "\<exists>p. solve_fk a d = p \<and>
     \<bar>x p\<bar> \<le> \<bar>coxa_length d\<bar> + \<bar>femur_length d\<bar> + \<bar>tibia_length d\<bar> \<and>
     \<bar>y p\<bar> \<le> \<bar>coxa_length d\<bar> + \<bar>femur_length d\<bar> + \<bar>tibia_length d\<bar> \<and>
     \<bar>z p\<bar> \<le> \<bar>femur_length d\<bar> + \<bar>tibia_length d\<bar>"
proof -
  let ?w = "deg_to_rad (coxa a - 90)"
  let ?u = "deg_to_rad (femur a - 90)"
  let ?v = "deg_to_rad (femur a - 90) + deg_to_rad (180 - tibia a) - pi"
  let ?h = "coxa_length d + (femur_length d * cos ?u + tibia_length d * cos ?v)"
  have hb: "\<bar>?h\<bar> \<le> \<bar>coxa_length d\<bar> + \<bar>femur_length d\<bar> + \<bar>tibia_length d\<bar>"
    by (rule fk_horizontal_bound)
  have xe: "x (solve_fk a d) = ?h * cos ?w" and ye: "y (solve_fk a d) = ?h * sin ?w"
    by (simp_all add: solve_fk_def Let_def algebra_simps)
  have "\<bar>x (solve_fk a d)\<bar> \<le> \<bar>?h\<bar>" unfolding xe by (rule scaled_cos_bound)
  moreover have "\<bar>y (solve_fk a d)\<bar> \<le> \<bar>?h\<bar>" unfolding ye by (rule scaled_sin_bound)
  moreover have "\<bar>z (solve_fk a d)\<bar> \<le> \<bar>femur_length d\<bar> + \<bar>tibia_length d\<bar>"
    using fk_vertical_bound [of "femur_length d" ?u "tibia_length d" ?v]
    by (simp add: solve_fk_def Let_def)
  ultimately show ?thesis using hb by auto
qed

subsection \<open>The closed forms in exact arithmetic\<close>

text \<open>
  With exact real arithmetic in place of the doubles, the angles that \<open>ik_angles\<close>
  computes for a target within the reach bounds, shifted by the servo offsets and not
  clamped, are mapped back to the target by \<open>solve_fk\<close>.  This is a fact about the
  trigonometric closed forms only.  It gives no bound on the error of the doubles, which
  depends on the rounding of \<^verbatim>\<open>acos\<close>, \<^verbatim>\<open>atan2\<close>, \<^verbatim>\<open>sin\<close> and \<^verbatim>\<open>cos\<close> and grows with the leg
  lengths and near the reach bounds.
\<close>

lemma sqrt_sum_squares_scaled:
  assumes "a \<noteq> 0"
  shows "sqrt (a * a + b * b) = \<bar>a\<bar> * sqrt (1 + (b / a)\<^sup>2)"
proof -
  have "a * a + b * b = a\<^sup>2 * (1 + (b / a)\<^sup>2)"
    using assms by (simp add: power2_eq_square field_simps)
  then show ?thesis by (simp add: real_sqrt_mult)
qed

lemma sqrt_one_plus_sq_pos: "0 < sqrt (1 + (c::real)\<^sup>2)"
proof -
  have "0 < 1 + c\<^sup>2" by (rule add_pos_nonneg) simp_all
  then show ?thesis by simp
qed

lemma atan2_cos: "sqrt (a * a + b * b) * cos (atan2 b a) = a"
proof -
  let ?s = "sqrt (1 + (b / a)\<^sup>2)"
  have s: "?s \<noteq> 0" using sqrt_one_plus_sq_pos [of "b / a"] by simp
  consider "0 < a" | "a < 0" | "a = 0" by linarith
  then show ?thesis
  proof cases
    case 1
    then have "atan2 b a = arctan (b / a)" by (simp add: atan2_def)
    then have "cos (atan2 b a) = 1 / ?s" by (simp only: cos_arctan)
    moreover have "sqrt (a * a + b * b) = a * ?s"
      using sqrt_sum_squares_scaled [of a b] 1 by simp
    ultimately show ?thesis using s by simp
  next
    case 2
    then have "atan2 b a = arctan (b / a) + pi \<or> atan2 b a = arctan (b / a) - pi"
      by (simp add: atan2_def)
    then have "cos (atan2 b a) = - cos (arctan (b / a))" by auto
    then have "cos (atan2 b a) = - (1 / ?s)" by (simp only: cos_arctan)
    moreover have "sqrt (a * a + b * b) = - a * ?s"
      using sqrt_sum_squares_scaled [of a b] 2 by simp
    ultimately show ?thesis using s by simp
  next
    case 3
    then show ?thesis by (simp add: atan2_def)
  qed
qed

lemma atan2_sin: "sqrt (a * a + b * b) * sin (atan2 b a) = b"
proof -
  let ?s = "sqrt (1 + (b / a)\<^sup>2)"
  have s: "?s \<noteq> 0" using sqrt_one_plus_sq_pos [of "b / a"] by simp
  consider "0 < a" | "a < 0" | "a = 0" by linarith
  then show ?thesis
  proof cases
    case 1
    then have "atan2 b a = arctan (b / a)" by (simp add: atan2_def)
    then have "sin (atan2 b a) = (b / a) / ?s" by (simp only: sin_arctan)
    moreover have "sqrt (a * a + b * b) = a * ?s"
      using sqrt_sum_squares_scaled [of a b] 1 by simp
    ultimately show ?thesis using s 1 by simp
  next
    case 2
    then have "atan2 b a = arctan (b / a) + pi \<or> atan2 b a = arctan (b / a) - pi"
      by (simp add: atan2_def)
    then have "sin (atan2 b a) = - sin (arctan (b / a))" by auto
    then have "sin (atan2 b a) = - ((b / a) / ?s)" by (simp only: sin_arctan)
    moreover have "sqrt (a * a + b * b) = - a * ?s"
      using sqrt_sum_squares_scaled [of a b] 2 by simp
    ultimately show ?thesis using s 2 by simp
  next
    case 3
    then show ?thesis by (simp add: atan2_def)
  qed
qed

lemma law_of_cosines_in_range:
  fixes f t r :: real
  assumes f: "0 < f" and r: "0 < r" and lo: "\<bar>f - t\<bar> \<le> r" and hi: "r \<le> f + t"
  shows "- 1 \<le> (f * f + r * r - t * t) / (2 * f * r) \<and> (f * f + r * r - t * t) / (2 * f * r) \<le> 1"
proof -
  have d: "0 < 2 * f * r" using f r by simp
  have "(f - r) * (f - r) \<le> t * t"
  proof -
    have "\<bar>f - r\<bar> \<le> \<bar>t\<bar>" using lo hi by linarith
    then have "(f - r)\<^sup>2 \<le> t\<^sup>2" by (simp only: abs_le_square_iff)
    then show ?thesis by (simp add: power2_eq_square)
  qed
  then have up: "f * f + r * r - t * t \<le> 2 * f * r" by (simp add: algebra_simps)
  have "t * t \<le> (f + r) * (f + r)"
  proof -
    have "\<bar>t\<bar> \<le> \<bar>f + r\<bar>" using lo hi f r by linarith
    then have "t\<^sup>2 \<le> (f + r)\<^sup>2" by (simp only: abs_le_square_iff)
    then show ?thesis by (simp add: power2_eq_square)
  qed
  then have dn: "- (2 * f * r) \<le> f * f + r * r - t * t" by (simp add: algebra_simps)
  show ?thesis using up dn d by (simp add: field_simps)
qed

lemma heron_symmetry:
  fixes f t r :: real
  shows "(2 * f * r)\<^sup>2 - (f * f + r * r - t * t)\<^sup>2 = (2 * f * t)\<^sup>2 - (f * f + t * t - r * r)\<^sup>2"
  by (simp add: power2_eq_square algebra_simps)

lemma scaled_sine_of_arccos:
  fixes k :: real
  assumes "0 < k" and "- 1 \<le> n / k" and "n / k \<le> 1"
  shows "(k * sin (arccos (n / k)))\<^sup>2 = k\<^sup>2 - n\<^sup>2"
proof -
  have "cos (arccos (n / k)) = n / k"
    using assms by (intro cos_arccos)
  with sin_cos_squared_add [of "arccos (n / k)"]
  have "(sin (arccos (n / k)))\<^sup>2 = 1 - (n / k)\<^sup>2"
    by simp
  then have "(k * sin (arccos (n / k)))\<^sup>2 = k\<^sup>2 * (1 - (n / k)\<^sup>2)"
    by (simp only: power_mult_distrib)
  also have "\<dots> = k\<^sup>2 - n\<^sup>2"
    using assms(1) by (simp add: power_divide right_diff_distrib)
  finally show ?thesis .
qed

lemma two_link_chain:
  fixes f t r :: real
  assumes f: "0 < f" and t: "0 < t" and r: "0 < r" and lo: "\<bar>f - t\<bar> \<le> r" and hi: "r \<le> f + t"
  defines "b \<equiv> arccos ((f * f + r * r - t * t) / (2 * f * r))"
    and "g \<equiv> arccos ((f * f + t * t - r * r) / (2 * f * t))"
  shows "f * cos b - t * cos (b + g) = r" and "f * sin b - t * sin (b + g) = 0"
proof -
  define nb where "nb = f * f + r * r - t * t"
  define ng where "ng = f * f + t * t - r * r"
  have b: "b = arccos (nb / (2 * f * r))" and g: "g = arccos (ng / (2 * f * t))"
    by (simp_all only: b_def g_def nb_def ng_def)
  have kb: "0 < 2 * f * r" and kg: "0 < 2 * f * t" using f t r by simp_all
  have cb_range: "- 1 \<le> nb / (2 * f * r) \<and> nb / (2 * f * r) \<le> 1"
    unfolding nb_def using f r lo hi by (rule law_of_cosines_in_range)
  have cg_range: "- 1 \<le> ng / (2 * f * t) \<and> ng / (2 * f * t) \<le> 1"
  proof -
    have "\<bar>f - r\<bar> \<le> t" "t \<le> f + r" using lo hi by linarith+
    with f t show ?thesis unfolding ng_def by (intro law_of_cosines_in_range)
  qed
  have cosb: "cos b = nb / (2 * f * r)" and cosg: "cos g = ng / (2 * f * t)"
    using cb_range cg_range by (simp_all only: b g cos_arccos)
  have sinb_nonneg: "0 \<le> sin b" and sing_nonneg: "0 \<le> sin g"
    unfolding b g by (simp_all only: sin_ge_zero arccos_lbound arccos_ubound cb_range cg_range)
  have "(2 * f * r * sin b)\<^sup>2 = (2 * f * r)\<^sup>2 - nb\<^sup>2"
    unfolding b using kb cb_range by (intro scaled_sine_of_arccos) simp_all
  also have "\<dots> = (2 * f * t)\<^sup>2 - ng\<^sup>2"
    unfolding nb_def ng_def by (rule heron_symmetry)
  also have "\<dots> = (2 * f * t * sin g)\<^sup>2"
    unfolding g using kg cg_range by (intro scaled_sine_of_arccos [symmetric]) simp_all
  finally have "(2 * f * r * sin b)\<^sup>2 = (2 * f * t * sin g)\<^sup>2" .
  moreover have "0 \<le> 2 * f * r * sin b" "0 \<le> 2 * f * t * sin g"
    using kb kg sinb_nonneg sing_nonneg by simp_all
  ultimately have "2 * f * r * sin b = 2 * f * t * sin g"
    by (rule power2_eq_imp_eq)
  then have B: "r * sin b = t * sin g" using f by simp
  have "2 * f * (t * cos g) = ng" "2 * f * (r * cos b) = nb"
    using f t r by (simp_all add: cosb cosg)
  moreover have "2 * f * f - ng = nb" by (simp add: nb_def ng_def)
  ultimately have "2 * f * (f - t * cos g) = 2 * f * (r * cos b)"
    by (simp only: right_diff_distrib)
  then have A: "f - t * cos g = r * cos b" using f by simp
  have pyth: "sin b * sin b + cos b * cos b = 1"
    using sin_cos_squared_add [of b] by (simp only: power2_eq_square)
  have "f * cos b - t * cos (b + g) = cos b * (f - t * cos g) + sin b * (t * sin g)"
    by (simp add: cos_add algebra_simps)
  also have "\<dots> = cos b * (r * cos b) + sin b * (r * sin b)"
    by (simp only: A B [symmetric])
  also have "\<dots> = r * (sin b * sin b + cos b * cos b)"
    by (simp only: algebra_simps)
  also have "\<dots> = r"
    by (simp only: pyth mult_1_right)
  finally show "f * cos b - t * cos (b + g) = r" .
  have "f * sin b - t * sin (b + g) = sin b * (f - t * cos g) - cos b * (t * sin g)"
    by (simp add: sin_add algebra_simps)
  also have "\<dots> = 0"
    by (simp only: A B [symmetric]) (simp add: algebra_simps)
  finally show "f * sin b - t * sin (b + g) = 0" .
qed

lemma deg_to_rad_inverse: "deg_to_rad (rad_to_deg v) = v"
  by (simp add: deg_to_rad_def rad_to_deg_def)

lemma deg_to_rad_offset: "deg_to_rad (rad_to_deg v + 90 - 90) = v"
  by (simp add: deg_to_rad_inverse)

lemma deg_to_rad_interior: "deg_to_rad (180 - (180 - rad_to_deg v)) = v"
  by (simp add: deg_to_rad_inverse)

lemma femur_tibia_chain:
  fixes f t r :: real
  assumes f: "0 < f" and t: "0 < t" and r: "0 \<le> r" and lo: "\<bar>f - t\<bar> \<le> r" and hi: "r \<le> f + t"
  defines "b \<equiv> arccos (clamp_unit (c_div (f * f + r * r - t * t) (2 * f * r)))"
    and "g \<equiv> arccos (clamp_unit (c_div (f * f + t * t - r * r) (2 * f * t)))"
  shows "f * cos b - t * cos (b + g) = r \<and> f * sin b - t * sin (b + g) = 0"
proof (cases "r = 0")
  case True
  with lo have ft: "f = t" by simp
  have "b = 0" using True ft by (simp add: b_def c_div_def clamp_unit_def)
  moreover have "g = 0" using True ft f by (simp add: g_def c_div_def clamp_unit_def)
  ultimately show ?thesis using True ft by simp
next
  case False
  with r have rpos: "0 < r" by simp
  have "- 1 \<le> (f * f + r * r - t * t) / (2 * f * r) \<and> (f * f + r * r - t * t) / (2 * f * r) \<le> 1"
    using f rpos lo hi by (rule law_of_cosines_in_range)
  then have b: "b = arccos ((f * f + r * r - t * t) / (2 * f * r))"
    using f rpos by (simp add: b_def c_div_def clamp_unit_def)
  have "\<bar>f - r\<bar> \<le> t" "t \<le> f + r" using lo hi by linarith+
  with f t have "- 1 \<le> (f * f + t * t - r * r) / (2 * f * t) \<and> (f * f + t * t - r * r) / (2 * f * t) \<le> 1"
    by (intro law_of_cosines_in_range)
  then have g: "g = arccos ((f * f + t * t - r * r) / (2 * f * t))"
    using f t by (simp add: g_def c_div_def clamp_unit_def)
  show ?thesis unfolding b g using f t rpos lo hi by (intro conjI two_link_chain)
qed

lemma chain_rotated:
  fixes f t r :: real
  assumes c: "f * cos b - t * cos (b + g) = r" and s: "f * sin b - t * sin (b + g) = 0"
  shows "f * cos (a + b) + t * cos (a + b + g - pi) = r * cos a"
    and "f * sin (a + b) + t * sin (a + b + g - pi) = r * sin a"
proof -
  have "f * cos (a + b) + t * cos (a + b + g - pi) = f * cos (a + b) - t * cos (a + (b + g))"
    by (simp add: add.assoc)
  also have "\<dots> = cos a * (f * cos b - t * cos (b + g)) - sin a * (f * sin b - t * sin (b + g))"
    by (simp only: cos_add [of a b] cos_add [of a "b + g"] algebra_simps)
  finally show "f * cos (a + b) + t * cos (a + b + g - pi) = r * cos a"
    by (simp only: c s) simp
  have "f * sin (a + b) + t * sin (a + b + g - pi) = f * sin (a + b) - t * sin (a + (b + g))"
    by (simp add: add.assoc)
  also have "\<dots> = sin a * (f * cos b - t * cos (b + g)) + cos a * (f * sin b - t * sin (b + g))"
    by (simp only: sin_add [of a b] sin_add [of a "b + g"] algebra_simps)
  finally show "f * sin (a + b) + t * sin (a + b + g - pi) = r * sin a"
    by (simp only: c s) simp
qed

lemma solve_fk_of_radians:
  "solve_fk \<lparr> coxa = rad_to_deg c + 90, femur = rad_to_deg u + 90, tibia = 180 - rad_to_deg g \<rparr> d =
     \<lparr> x = coxa_length d * cos c +
             (femur_length d * cos u + tibia_length d * cos (u + g - pi)) * cos c,
       y = coxa_length d * sin c +
             (femur_length d * cos u + tibia_length d * cos (u + g - pi)) * sin c,
       z = femur_length d * sin u + tibia_length d * sin (u + g - pi) \<rparr>"
  by (simp only: solve_fk_def Let_def JointAngles.select_convs deg_to_rad_offset
      deg_to_rad_interior)

lemma ik_angles_radians:
  "ik_angles t d =
     \<lparr> coxa = rad_to_deg (atan2 (y t) (x t)),
       femur = rad_to_deg (atan2 (z t) (horizontal_reach t d) +
         arccos (clamp_unit (c_div (femur_length d * femur_length d +
             reach_distance t d * reach_distance t d - tibia_length d * tibia_length d)
           (2 * femur_length d * reach_distance t d)))),
       tibia = 180 - rad_to_deg (arccos (clamp_unit (c_div (femur_length d * femur_length d +
             tibia_length d * tibia_length d - reach_distance t d * reach_distance t d)
           (2 * femur_length d * tibia_length d)))) \<rparr>"
  by (simp only: ik_angles_def Let_def)

lemma fk_after_ik:
  assumes f: "0 < femur_length d" and t: "0 < tibia_length d"
    and lo: "\<bar>femur_length d - tibia_length d\<bar> \<le> reach_distance t d"
    and hi: "reach_distance t d \<le> femur_length d + tibia_length d"
  shows "solve_fk \<lparr> coxa = coxa (ik_angles t d) + 90, femur = femur (ik_angles t d) + 90,
               tibia = tibia (ik_angles t d) \<rparr> d = t"
proof -
  let ?h = "horizontal_reach t d"
  let ?r = "reach_distance t d"
  let ?c = "atan2 (y t) (x t)"
  let ?a = "atan2 (z t) ?h"
  let ?b = "arccos (clamp_unit (c_div (femur_length d * femur_length d + ?r * ?r -
               tibia_length d * tibia_length d) (2 * femur_length d * ?r)))"
  let ?g = "arccos (clamp_unit (c_div (femur_length d * femur_length d +
               tibia_length d * tibia_length d - ?r * ?r) (2 * femur_length d * tibia_length d)))"
  have r: "?r = sqrt (?h * ?h + z t * z t)" by (simp add: reach_distance_def Let_def)
  then have r0: "0 \<le> ?r" by simp
  have chain: "femur_length d * cos ?b - tibia_length d * cos (?b + ?g) = ?r \<and>
      femur_length d * sin ?b - tibia_length d * sin (?b + ?g) = 0"
    using f t r0 lo hi by (rule femur_tibia_chain)
  have hor: "femur_length d * cos (?a + ?b) + tibia_length d * cos (?a + ?b + ?g - pi) = ?h"
  proof -
    have "femur_length d * cos (?a + ?b) + tibia_length d * cos (?a + ?b + ?g - pi) = ?r * cos ?a"
      using chain by (intro chain_rotated) simp_all
    also have "\<dots> = ?h" unfolding r by (rule atan2_cos)
    finally show ?thesis .
  qed
  have ver: "femur_length d * sin (?a + ?b) + tibia_length d * sin (?a + ?b + ?g - pi) = z t"
  proof -
    have "femur_length d * sin (?a + ?b) + tibia_length d * sin (?a + ?b + ?g - pi) = ?r * sin ?a"
      using chain by (intro chain_rotated) simp_all
    also have "\<dots> = z t" unfolding r by (rule atan2_sin)
    finally show ?thesis .
  qed
  have xy: "coxa_length d + ?h = sqrt (x t * x t + y t * y t)"
    by (simp add: horizontal_reach_def Let_def)
  have "solve_fk \<lparr> coxa = coxa (ik_angles t d) + 90, femur = femur (ik_angles t d) + 90,
               tibia = tibia (ik_angles t d) \<rparr> d =
        \<lparr> x = coxa_length d * cos ?c + ?h * cos ?c,
          y = coxa_length d * sin ?c + ?h * sin ?c, z = z t \<rparr>"
    by (simp only: ik_angles_radians JointAngles.select_convs solve_fk_of_radians hor ver)
  also have "\<dots> = \<lparr> x = (coxa_length d + ?h) * cos ?c, y = (coxa_length d + ?h) * sin ?c, z = z t \<rparr>"
    by (simp only: distrib_right)
  also have "\<dots> = \<lparr> x = x t, y = y t, z = z t \<rparr>"
    by (simp only: xy atan2_cos atan2_sin)
  also have "\<dots> = t" by simp
  finally show ?thesis .
qed

end
